theory Spec2Isabelle
  imports Main "HOL-Library.Sublist"
begin

section \<open>The NativeClass transformer\<close>

text \<open>
  A shallow embedding of \<^verbatim>\<open>packages/webpack5/src/transformers/NativeClass/index.ts\<close>:
  a TypeScript transformer that replaces every class declaration decorated with
  \<^verbatim>\<open>@NativeClass\<close> by an identifier node whose text is the class compiled on its own
  for ES5.

  Source text is a \<open>string\<close>: a list of code units. The code units of the model are the
  256 values of \<open>char\<close>; among them the line terminators of ECMAScript are LF and CR, and
  its white space is TAB, LF, VT, FF, CR, SP and NBSP.
\<close>

subsection \<open>Syntax trees\<close>

text \<open>
  The kinds of node the transformer distinguishes; \<open>OtherKind\<close> stands for every other
  member of \<^verbatim>\<open>ts.SyntaxKind\<close>.
\<close>

datatype syntax_kind =
    ClassDeclaration
  | ClassExpression
  | Decorator
  | Parameter
  | PropertyDeclaration
  | MethodDeclaration
  | GetAccessor
  | SetAccessor
  | Identifier
  | OtherKind nat

text \<open>
  A node of a parsed file carries its kind, its leading trivia (white space and comments
  in front of its first token), its source text from the first token on, and its
  children. \<^verbatim>\<open>ts.factory.createIdentifier(text)\<close> makes a node that belongs to no
  source file.
\<close>

datatype node =
    Parsed syntax_kind string string "node list"
  | CreatedIdentifier string

record source_file =
  fileName :: string
  statements :: "node list"

datatype error =
    TypeError
  | Thrown string

fun kind :: "node \<Rightarrow> syntax_kind" where
  "kind (Parsed k l t cs) = k"
| "kind (CreatedIdentifier s) = Identifier"

fun children :: "node \<Rightarrow> node list" where
  "children (Parsed k l t cs) = cs"
| "children (CreatedIdentifier s) = []"

text \<open>
  \<^verbatim>\<open>node.getText()\<close> is the source text from the node's first token to its end, without
  the leading trivia; \<^verbatim>\<open>node.getFullText()\<close> starts at the trivia. On a created
  identifier, which has no source file to read from, both throw a TypeError.
\<close>

fun getText :: "node \<Rightarrow> error + string" where
  "getText (Parsed k l t cs) = Inr t"
| "getText (CreatedIdentifier s) = Inl TypeError"

fun getFullText :: "node \<Rightarrow> error + string" where
  "getFullText (Parsed k l t cs) = Inr (l @ t)"
| "getFullText (CreatedIdentifier s) = Inl TypeError"

definition isClassDeclaration :: "node \<Rightarrow> bool" where
  "isClassDeclaration n = (kind n = ClassDeclaration)"

definition isDecorator :: "node \<Rightarrow> bool" where
  "isDecorator n = (kind n = Decorator)"

text \<open>\<^verbatim>\<open>ts.canHaveDecorators\<close>: the capability check, by kind.\<close>

definition canHaveDecorators :: "node \<Rightarrow> bool" where
  "canHaveDecorators n =
     (kind n = Parameter \<or> kind n = PropertyDeclaration \<or> kind n = MethodDeclaration
      \<or> kind n = GetAccessor \<or> kind n = SetAccessor \<or> kind n = ClassExpression
      \<or> kind n = ClassDeclaration)"

text \<open>
  \<^verbatim>\<open>ts.getDecorators(node)\<close>: the decorators among the node's modifiers, which are
  children of the node; \<open>None\<close> is \<^verbatim>\<open>undefined\<close>, returned when there is none.
\<close>

definition getDecorators :: "node \<Rightarrow> node list option" where
  "getDecorators n =
     (let ds = filter isDecorator (children n) in if ds = [] then None else Some ds)"

subsection \<open>Strings\<close>

definition is_white_space :: "char \<Rightarrow> bool" where
  "is_white_space c =
     (c = CHR 0x09 \<or> c = CHR 0x0A \<or> c = CHR 0x0B \<or> c = CHR 0x0C \<or> c = CHR 0x0D
      \<or> c = CHR 0x20 \<or> c = CHR 0xA0)"

text \<open>\<^verbatim>\<open>String.prototype.trim\<close>.\<close>

definition trim :: "string \<Rightarrow> string" where
  "trim s = rev (dropWhile is_white_space (rev (dropWhile is_white_space s)))"

text \<open>
  \<^verbatim>\<open>s.indexOf(t)\<close>: the index of the first occurrence of \<open>t\<close> in \<open>s\<close>, or \<open>-1\<close>.
\<close>

fun indexOf :: "string \<Rightarrow> string \<Rightarrow> int" where
  "indexOf [] t = (if t = [] then 0 else - 1)"
| "indexOf (c # cs) t =
     (if prefix t (c # cs) then 0
      else (let i = indexOf cs t in if i < 0 then - 1 else i + 1))"

subsection \<open>The marker detector\<close>

definition marker_tag :: string where
  "marker_tag = ''@NativeClass''"

text \<open>
  \<^verbatim>\<open>array.filter(cb)\<close> on the value of \<^verbatim>\<open>ts.getDecorators(node)\<close>: a call on
  \<^verbatim>\<open>undefined\<close> throws a TypeError, and so does a callback that throws.
\<close>

fun filter_results :: "('a \<Rightarrow> error + bool) \<Rightarrow> 'a list \<Rightarrow> error + 'a list" where
  "filter_results p [] = Inr []"
| "filter_results p (x # xs) =
     (case p x of
        Inl e \<Rightarrow> Inl e
      | Inr b \<Rightarrow>
          (case filter_results p xs of
             Inl e \<Rightarrow> Inl e
           | Inr ys \<Rightarrow> Inr (if b then x # ys else ys)))"

definition array_filter :: "('a \<Rightarrow> error + bool) \<Rightarrow> 'a list option \<Rightarrow> error + 'a list" where
  "array_filter p a = (case a of None \<Rightarrow> Inl TypeError | Some xs \<Rightarrow> filter_results p xs)"

text \<open>The callback of line 13: does the decorator's trimmed full text contain the tag?\<close>

definition has_marker_text :: "node \<Rightarrow> error + bool" where
  "has_marker_text d =
     (case getFullText d of
        Inl e \<Rightarrow> Inl e
      | Inr fullText \<Rightarrow> Inr (indexOf (trim fullText) marker_tag > - 1))"

text \<open>
  \<^verbatim>\<open>isNativeClassExtension\<close>, lines 9 to 18. The chain of \<^verbatim>\<open>&&\<close> stops at its first
  falsy operand; an array is truthy, \<^verbatim>\<open>undefined\<close> is falsy. The result is the truth
  value that the condition of line 20 reads: \<open>False\<close> stands for \<^verbatim>\<open>false\<close> and for the
  \<^verbatim>\<open>undefined\<close> that the chain yields on a node without decorators.
\<close>

definition isNativeClassExtension :: "node \<Rightarrow> error + bool" where
  "isNativeClassExtension n =
     (if canHaveDecorators n then
        (case getDecorators n of
           None \<Rightarrow> Inr False
         | Some ds \<Rightarrow>
             (case array_filter has_marker_text (getDecorators n) of
                Inl e \<Rightarrow> Inl e
              | Inr m \<Rightarrow> Inr (length m > 0)))
      else Inr False)"

subsection \<open>Regular expressions\<close>

text \<open>
  A backtracking matcher in continuation style, as ECMAScript specifies it: each piece of
  a pattern takes the matcher of the rest of the pattern (its continuation) and the input
  left, and returns what the continuation returns at the first choice, in priority
  order, where the continuation succeeds.
\<close>

text \<open>A literal piece of the pattern.\<close>

definition lit :: "string \<Rightarrow> (string \<Rightarrow> 'a option) \<Rightarrow> string \<Rightarrow> 'a option" where
  "lit l k s = (if prefix l s then k (drop (length l) s) else None)"

text \<open>\<^verbatim>\<open>X*?\<close> for a character class \<open>X\<close>: the shortest repetition first.\<close>

fun lazy_star :: "(char \<Rightarrow> bool) \<Rightarrow> (string \<Rightarrow> 'a option) \<Rightarrow> string \<Rightarrow> 'a option" where
  "lazy_star cls k [] = k []"
| "lazy_star cls k (c # cs) =
     (case k (c # cs) of
        Some r \<Rightarrow> Some r
      | None \<Rightarrow> if cls c then lazy_star cls k cs else None)"

text \<open>\<^verbatim>\<open>X*\<close> for a character class \<open>X\<close>: the longest repetition first.\<close>

fun greedy_star :: "(char \<Rightarrow> bool) \<Rightarrow> (string \<Rightarrow> 'a option) \<Rightarrow> string \<Rightarrow> 'a option" where
  "greedy_star cls k [] = k []"
| "greedy_star cls k (c # cs) =
     (if cls c then
        (case greedy_star cls k cs of Some r \<Rightarrow> Some r | None \<Rightarrow> k (c # cs))
      else k (c # cs))"

text \<open>\<^verbatim>\<open>(G)?\<close>: the group first, the empty match second.\<close>

definition optional ::
  "((string \<Rightarrow> 'a option) \<Rightarrow> string \<Rightarrow> 'a option) \<Rightarrow> (string \<Rightarrow> 'a option) \<Rightarrow> string \<Rightarrow> 'a option"
where
  "optional g k s = (case g k s of Some r \<Rightarrow> Some r | None \<Rightarrow> k s)"

definition is_line_terminator :: "char \<Rightarrow> bool" where
  "is_line_terminator c = (c = CHR 0x0A \<or> c = CHR 0x0D)"

text \<open>\<^verbatim>\<open>.\<close> without the \<^verbatim>\<open>s\<close> flag, \<^verbatim>\<open>(.|\n)\<close>, and \<^verbatim>\<open>.\<close> with the flag.\<close>

definition dot :: "char \<Rightarrow> bool" where
  "dot c = (\<not> is_line_terminator c)"

definition dot_or_newline :: "char \<Rightarrow> bool" where
  "dot_or_newline c = (dot c \<or> c = CHR 0x0A)"

definition dot_all :: "char \<Rightarrow> bool" where
  "dot_all c = True"

text \<open>The text between two positions of the input, each given by the input left there.\<close>

definition between :: "string \<Rightarrow> string \<Rightarrow> string" where
  "between s rest = take (length s - length rest) s"

text \<open>
  \<^verbatim>\<open>s.replace(regex, replacement)\<close> for a regular expression with the \<^verbatim>\<open>g\<close> flag.
  \<open>m\<close> matches the pattern at the start of its input and returns the captured groups
  and the input left after the match. The scan goes from left to right: text outside the
  matches is copied, each match is replaced, and the scan goes on after the match (one
  code unit further when the match is empty).
\<close>

function replace_all ::
  "(string \<Rightarrow> ('g \<times> string) option) \<Rightarrow> ('g \<Rightarrow> string) \<Rightarrow> string \<Rightarrow> string"
where
  "replace_all m r s =
     (case m s of
        Some (g, rest) \<Rightarrow>
          if length rest < length s then r g @ replace_all m r rest
          else r g @ (case s of [] \<Rightarrow> [] | c # cs \<Rightarrow> c # replace_all m r cs)
      | None \<Rightarrow> (case s of [] \<Rightarrow> [] | c # cs \<Rightarrow> c # replace_all m r cs))"
  by pat_completeness auto
termination
  by (relation "measure (\<lambda>(m, r, s). length s)") auto

text \<open>Line 31: \<^verbatim>\<open>/@NativeClass(\((.|\n)*?\))?/gm\<close>, matched at the start of the input.\<close>

definition marker_regex :: "string \<Rightarrow> (unit \<times> string) option" where
  "marker_regex =
     lit ''@NativeClass''
       (optional (\<lambda>k. lit ''('' (lazy_star dot_or_newline (lit '')'' k)))
          (\<lambda>rest. Some ((), rest)))"

text \<open>
  Line 41: \<^verbatim>\<open>/(Object\.defineProperty\(.*?{.*?)(enumerable:\s*false)(.*?}\))/gs\<close>,
  matched at the start of the input, with its three groups.
\<close>

definition defineProperty_regex :: "string \<Rightarrow> ((string \<times> string \<times> string) \<times> string) option" where
  "defineProperty_regex s =
     lit ''Object.defineProperty(''
       (lazy_star dot_all
          (lit ''{''
             (lazy_star dot_all
                (\<lambda>s1. lit ''enumerable:''
                   (greedy_star is_white_space
                      (lit ''false''
                         (\<lambda>s2. lazy_star dot_all
                            (lit ''})''
                               (\<lambda>s3. Some ((between s s1, between s1 s2, between s2 s3), s3)))
                            s2)))
                   s1))))
       s"

subsection \<open>The nested compile\<close>

datatype module_kind = CommonJS | ES2015 | ESNext

datatype script_target = ES3 | ES5 | ES2015_target | ESNext_target

text \<open>
  The options of \<^verbatim>\<open>ts.transpileModule\<close> that the transformer sets, and
  \<^verbatim>\<open>reportDiagnostics\<close>, which it leaves unset; \<open>None\<close> is an option left unset.
\<close>

record compiler_options =
  noEmitHelpers :: "bool option"
  module_option :: "module_kind option"
  target_option :: "script_target option"

record transpile_options =
  compilerOptions :: "compiler_options option"
  reportDiagnostics :: "bool option"

record transpile_output =
  outputText :: string
  diagnostics :: "string list"

text \<open>
  \<^verbatim>\<open>ts.transpileModule\<close> is the TypeScript compiler's, not this repository's: the
  transformer is modelled for any such function, which returns its output or throws.
\<close>

type_synonym transpiler = "string \<Rightarrow> transpile_options \<Rightarrow> error + transpile_output"

text \<open>Lines 32 to 38.\<close>

definition nested_options :: transpile_options where
  "nested_options =
     \<lparr>compilerOptions =
        Some \<lparr>noEmitHelpers = Some True, module_option = Some ESNext, target_option = Some ES5\<rparr>,
      reportDiagnostics = None\<rparr>"

text \<open>The first argument of line 31 and the replacement of lines 40 to 43.\<close>

definition remove_marker :: "string \<Rightarrow> string" where
  "remove_marker t = replace_all marker_regex (\<lambda>g. []) t"

definition make_enumerable :: "string \<Rightarrow> string" where
  "make_enumerable t =
     replace_all defineProperty_regex (\<lambda>(g1, g2, g3). g1 @ ''enumerable: true'' @ g3) t"

text \<open>\<^verbatim>\<open>createHelper\<close>, lines 26 to 45.\<close>

definition createHelper :: "transpiler \<Rightarrow> node \<Rightarrow> error + node" where
  "createHelper transpileModule n =
     (case getText n of
        Inl e \<Rightarrow> Inl e
      | Inr t \<Rightarrow>
          (case transpileModule (remove_marker t) nested_options of
             Inl e \<Rightarrow> Inl e
           | Inr out \<Rightarrow> Inr (CreatedIdentifier (make_enumerable (outputText out)))))"

subsection \<open>The traversal\<close>

text \<open>
  \<^verbatim>\<open>ts.visitNodes(nodes, visitor)\<close> calls the visitor on each node in order and collects
  the nodes it returns; an exception of the visitor ends the visit.
\<close>

fun collect :: "(error + 'a) list \<Rightarrow> error + 'a list" where
  "collect [] = Inr []"
| "collect (r # rs) =
     (case r of
        Inl e \<Rightarrow> Inl e
      | Inr x \<Rightarrow> (case collect rs of Inl e \<Rightarrow> Inl e | Inr xs \<Rightarrow> Inr (x # xs)))"

definition visitNodes :: "node list \<Rightarrow> (node \<Rightarrow> error + node) \<Rightarrow> error + node list" where
  "visitNodes ns visitor = collect (map visitor ns)"

text \<open>
  \<^verbatim>\<open>ts.visitEachChild(node, visitor, ctx)\<close> visits the children of the node and returns
  the node with the visited children in their place.
\<close>

fun visitEachChild :: "node \<Rightarrow> (node \<Rightarrow> error + node) \<Rightarrow> error + node" where
  "visitEachChild (Parsed k l t cs) visitor =
     (case visitNodes cs visitor of
        Inl e \<Rightarrow> Inl e
      | Inr cs' \<Rightarrow> Inr (Parsed k l t cs'))"
| "visitEachChild (CreatedIdentifier s) visitor = Inr (CreatedIdentifier s)"

lemma child_size: "c \<in> set (children n) \<Longrightarrow> size c < size n"
  by (cases n) (auto simp: less_Suc_eq_le size_list_estimation')

lemma visitEachChild_cong [fundef_cong]:
  assumes "n = n'" and "\<And>c. c \<in> set (children n') \<Longrightarrow> f c = g c"
  shows "visitEachChild n f = visitEachChild n' g"
proof (cases n')
  case (Parsed k l t cs)
  have "map f cs = map g cs"
    using assms(2) Parsed by simp
  then show ?thesis
    unfolding assms(1) Parsed by (simp only: visitEachChild.simps visitNodes_def)
next
  case (CreatedIdentifier s)
  then show ?thesis
    using assms(1) by simp
qed

text \<open>The condition of line 20, with the exceptions of its operands.\<close>

definition is_marked_class :: "node \<Rightarrow> error + bool" where
  "is_marked_class n = (if isClassDeclaration n then isNativeClassExtension n else Inr False)"

text \<open>\<^verbatim>\<open>visitNode\<close>, lines 19 to 24.\<close>

function visitNode :: "transpiler \<Rightarrow> node \<Rightarrow> error + node" where
  "visitNode transpileModule n =
     (case is_marked_class n of
        Inl e \<Rightarrow> Inl e
      | Inr b \<Rightarrow>
          if b then createHelper transpileModule n
          else visitEachChild n (visitNode transpileModule))"
  by pat_completeness auto
termination
  by (relation "measure (\<lambda>(tr, n). size n)") (auto simp: child_size)

definition updateSourceFile :: "source_file \<Rightarrow> node list \<Rightarrow> source_file" where
  "updateSourceFile source stmts = source\<lparr>statements := stmts\<rparr>"

text \<open>
  The transformer that the default export returns, lines 47 to 51. The context \<^verbatim>\<open>ctx\<close>
  of the export goes to \<^verbatim>\<open>ts.visitEachChild\<close> only, which rebuilds nodes with it; the
  nested compile does not read it.
\<close>

definition transformer :: "transpiler \<Rightarrow> source_file \<Rightarrow> error + source_file" where
  "transformer transpileModule source =
     (case visitNodes (statements source) (visitNode transpileModule) of
        Inl e \<Rightarrow> Inl e
      | Inr stmts \<Rightarrow> Inr (updateSourceFile source stmts))"

subsection \<open>Notions the properties are stated with\<close>

text \<open>A node that the traversal replaces: a class declaration that the detector accepts.\<close>

definition marked :: "node \<Rightarrow> bool" where
  "marked n = (is_marked_class n = Inr True)"

text \<open>Does the tree hold a marked class declaration, at any depth?\<close>

fun has_marked :: "node \<Rightarrow> bool" where
  "has_marked (Parsed k l t cs) = (marked (Parsed k l t cs) \<or> list_ex has_marked cs)"
| "has_marked (CreatedIdentifier s) = False"

text \<open>The number of marked class declarations of a tree, at any depth.\<close>

fun count_marked :: "node \<Rightarrow> nat" where
  "count_marked (Parsed k l t cs) =
     (if marked (Parsed k l t cs) then 1 else 0) + sum_list (map count_marked cs)"
| "count_marked (CreatedIdentifier s) = 0"

text \<open>The marked class declarations that lie in no other marked class declaration.\<close>

fun outermost_marked :: "node \<Rightarrow> node list" where
  "outermost_marked (Parsed k l t cs) =
     (if marked (Parsed k l t cs) then [Parsed k l t cs]
      else concat (map outermost_marked cs))"
| "outermost_marked (CreatedIdentifier s) = []"

text \<open>The number of created identifiers of a tree; a tree of the parser has none.\<close>

fun count_created :: "node \<Rightarrow> nat" where
  "count_created (Parsed k l t cs) = sum_list (map count_created cs)"
| "count_created (CreatedIdentifier s) = 1"

fun parsed :: "node \<Rightarrow> bool" where
  "parsed (Parsed k l t cs) = list_all parsed cs"
| "parsed (CreatedIdentifier s) = False"

fun is_created :: "node \<Rightarrow> bool" where
  "is_created (Parsed k l t cs) = False"
| "is_created (CreatedIdentifier s) = True"

text \<open>
  A tree and the tree that takes its place: a marked class declaration gives way to a
  created identifier; a tree that holds no marked class declaration stays as it is; any
  other node keeps its kind, its trivia and its text, and has as many children, in the
  same order, each with the tree that takes its place.
\<close>

fun mirrors :: "node \<Rightarrow> node \<Rightarrow> bool" where
  "mirrors (Parsed k l t cs) n' =
     (if marked (Parsed k l t cs) then is_created n'
      else if has_marked (Parsed k l t cs) then
        (case n' of
           Parsed k' l' t' cs' \<Rightarrow> k' = k \<and> l' = l \<and> t' = t \<and> list_all2 mirrors cs cs'
         | CreatedIdentifier s \<Rightarrow> False)
      else n' = Parsed k l t cs)"
| "mirrors (CreatedIdentifier s) n' = (n' = CreatedIdentifier s)"

subsection \<open>Sample inputs\<close>

text \<open>
  Compilers to run the transformer with. The first returns its input as its output. The
  others check that the parentheses and the braces of their input match: one returns its
  input as its output and reports a diagnostic when they do not, the other throws then.
\<close>

definition sample_transpile :: transpiler where
  "sample_transpile t opts = Inr \<lparr>outputText = t, diagnostics = []\<rparr>"

fun brackets_match :: "string \<Rightarrow> nat \<Rightarrow> nat \<Rightarrow> bool" where
  "brackets_match [] p b = (p = 0 \<and> b = 0)"
| "brackets_match (c # cs) p b =
     (if c = CHR ''('' then brackets_match cs (Suc p) b
      else if c = CHR '')'' then (case p of 0 \<Rightarrow> False | Suc p' \<Rightarrow> brackets_match cs p' b)
      else if c = CHR ''{'' then brackets_match cs p (Suc b)
      else if c = CHR ''}'' then (case b of 0 \<Rightarrow> False | Suc b' \<Rightarrow> brackets_match cs p b')
      else brackets_match cs p b)"

definition reporting_transpile :: transpiler where
  "reporting_transpile t opts =
     Inr \<lparr>outputText = t,
          diagnostics =
            (if brackets_match t 0 0 then [] else [''Declaration or statement expected.''])\<rparr>"

definition strict_transpile :: transpiler where
  "strict_transpile t opts =
     (if brackets_match t 0 0 then Inr \<lparr>outputText = t, diagnostics = []\<rparr>
      else Inl (Thrown ''Declaration or statement expected.''))"

text \<open>
  A class whose marker has a call among its arguments:
  \<^verbatim>\<open>@NativeClass(f(1)) class Foo {}\<close>.
\<close>

definition sample_nested_args :: node where
  "sample_nested_args =
     Parsed ClassDeclaration [] ''@NativeClass(f(1)) class Foo {}''
       [Parsed Decorator [] ''@NativeClass(f(1))'' []]"

text \<open>
  \<^verbatim>\<open>@NativeClass class B {}\<close>, the same class in the body of a function and in a method
  of a marked class \<open>A\<close>, a class without decorators, and a marked class expression.
\<close>

definition sample_decorator :: node where
  "sample_decorator = Parsed Decorator [] ''@NativeClass'' []"

definition sample_class_B :: node where
  "sample_class_B = Parsed ClassDeclaration [] ''@NativeClass class B {}'' [sample_decorator]"

definition sample_function :: node where
  "sample_function =
     Parsed (OtherKind 0) [] ''function f() { @NativeClass class B {} }'' [sample_class_B]"

definition sample_class_A :: node where
  "sample_class_A =
     Parsed ClassDeclaration [] ''@NativeClass class A { m() { @NativeClass class B {} } }''
       [sample_decorator,
        Parsed MethodDeclaration [] ''m() { @NativeClass class B {} }'' [sample_class_B]]"

text \<open>
  A function with a statement on each side of \<open>B\<close>, and a marked class with a comment
  in front of it.
\<close>

definition sample_block :: node where
  "sample_block =
     Parsed (OtherKind 0) [] ''function g() { a(); @NativeClass class B {} b(); }''
       [Parsed (OtherKind 2) '' '' ''a();'' [], sample_class_B, Parsed (OtherKind 2) '' '' ''b();'' []]"

definition sample_documented_class :: node where
  "sample_documented_class =
     Parsed ClassDeclaration ''/* doc */ '' ''@NativeClass class B {}''
       [Parsed Decorator ''/* doc */ '' ''@NativeClass'' []]"

definition sample_plain_class :: node where
  "sample_plain_class = Parsed ClassDeclaration [] ''class Bar {}'' []"

definition sample_class_expression :: node where
  "sample_class_expression =
     Parsed (OtherKind 1) [] ''const C = @NativeClass class {}''
       [Parsed ClassExpression [] ''@NativeClass class {}'' [sample_decorator]]"



section \<open>Properties\<close>

declare visitNode.simps [simp del]

declare replace_all.simps [simp del]

subsection \<open>Strings\<close>

lemma indexOf_sublist: "(indexOf s t > - 1) = sublist t s"
proof (induction s)
  case Nil
  then show ?case by auto
next
  case (Cons c cs)
  then show ?case
    by (auto simp: Let_def sublist_Cons_right)
qed

lemma sublist_dropWhile_iff:
  assumes "t \<noteq> []" and "\<And>c. c \<in> set t \<Longrightarrow> \<not> P c"
  shows "sublist t (dropWhile P s) = sublist t s"
proof (induction s)
  case Nil
  then show ?case by simp
next
  case (Cons c cs)
  show ?case
  proof (cases "P c")
    case True
    obtain t0 ts where t: "t = t0 # ts"
      using assms(1) by (cases t) auto
    have "\<not> prefix t (c # cs)"
      using assms(2) True t by auto
    then show ?thesis
      using True Cons by (simp add: sublist_Cons_right)
  next
    case False
    then show ?thesis by simp
  qed
qed

text \<open>Trimming neither adds nor removes an occurrence of a text free of white space.\<close>

lemma sublist_trim_iff:
  assumes "t \<noteq> []" and "\<And>c. c \<in> set t \<Longrightarrow> \<not> is_white_space c"
  shows "sublist t (trim s) = sublist t s"
proof -
  have r: "rev t \<noteq> []" "\<And>c. c \<in> set (rev t) \<Longrightarrow> \<not> is_white_space c"
    using assms by auto
  have "sublist t (trim s) =
      sublist (rev t) (dropWhile is_white_space (rev (dropWhile is_white_space s)))"
    unfolding trim_def by (simp add: sublist_rev_right)
  also have "\<dots> = sublist (rev t) (rev (dropWhile is_white_space s))"
    by (rule sublist_dropWhile_iff [OF r])
  also have "\<dots> = sublist t (dropWhile is_white_space s)"
    by simp
  also have "\<dots> = sublist t s"
    by (rule sublist_dropWhile_iff [OF assms])
  finally show ?thesis .
qed

lemma marker_tag_no_space: "c \<in> set marker_tag \<Longrightarrow> \<not> is_white_space c"
  by (auto simp: marker_tag_def is_white_space_def)

subsection \<open>The marker detector\<close>

lemma has_marker_text_Parsed:
  "has_marker_text (Parsed k l t cs) = Inr (sublist marker_tag (l @ t))"
proof -
  have "marker_tag \<noteq> []"
    by (simp add: marker_tag_def)
  then show ?thesis
    by (simp add: has_marker_text_def indexOf_sublist sublist_trim_iff marker_tag_no_space)
qed

lemma has_marker_text_decorator:
  "isDecorator d \<Longrightarrow>
   has_marker_text d = Inr (\<exists>s. getFullText d = Inr s \<and> sublist marker_tag s)"
  by (cases d) (simp_all add: has_marker_text_Parsed isDecorator_def)

lemma filter_results_total:
  assumes "\<And>x. x \<in> set xs \<Longrightarrow> p x = Inr (q x)"
  shows "filter_results p xs = Inr (filter q xs)"
  using assms by (induction xs) auto

lemma detector_value:
  "isNativeClassExtension n =
     Inr (canHaveDecorators n \<and>
          (\<exists>d \<in> set (children n). isDecorator d \<and>
             (\<exists>s. getFullText d = Inr s \<and> sublist marker_tag s)))"
proof -
  let ?q = "\<lambda>d. \<exists>s. getFullText d = Inr s \<and> sublist marker_tag s"
  let ?ds = "filter isDecorator (children n)"
  have f: "filter_results has_marker_text ?ds = Inr (filter ?q ?ds)"
    by (rule filter_results_total) (simp add: has_marker_text_decorator)
  have len: "(0 < length (filter ?q ?ds)) = (\<exists>d \<in> set (children n). isDecorator d \<and> ?q d)"
    by (auto simp: filter_empty_conv)
  have none: "?ds = [] \<Longrightarrow> \<not> (\<exists>d \<in> set (children n). isDecorator d \<and> ?q d)"
    by (auto simp: filter_empty_conv)
  show ?thesis
    using f len none
    by (auto simp: isNativeClassExtension_def getDecorators_def Let_def array_filter_def)
qed

text \<open>
  Claim C5. On every node, and so on every class declaration, the marker detector
  returns without an exception, and it returns true exactly when the node can have
  decorators and one of its decorators has a full text that contains the tag
  \<^verbatim>\<open>@NativeClass\<close>. On a node without decorators it returns false.
\<close>

theorem isNativeClassExtension_iff:
  "isNativeClassExtension n =
     Inr (canHaveDecorators n \<and>
          (\<exists>d \<in> set (children n). isDecorator d \<and>
             (\<exists>s. getFullText d = Inr s \<and> sublist marker_tag s)))
   \<and> (getDecorators n = None \<longrightarrow> isNativeClassExtension n = Inr False)"
proof -
  have "getDecorators n = None \<Longrightarrow> \<not> (\<exists>d \<in> set (children n). isDecorator d)"
    by (auto simp: getDecorators_def Let_def filter_empty_conv split: if_splits)
  then show ?thesis
    by (auto simp: detector_value)
qed

text \<open>
  The class \<^verbatim>\<open>@NativeClass class A {}\<close> is detected; the class \<^verbatim>\<open>class B {}\<close>, which
  has no decorator, is not.
\<close>

theorem isNativeClassExtension_iff_witness:
  "isNativeClassExtension
     (Parsed ClassDeclaration '' '' ''@NativeClass class A {}''
        [Parsed Decorator '' '' ''@NativeClass'' []]) = Inr True
   \<and> getDecorators (Parsed ClassDeclaration '' '' ''class B {}'' []) = None
   \<and> isNativeClassExtension (Parsed ClassDeclaration '' '' ''class B {}'' []) = Inr False"
  using isNativeClassExtension_iff
    [of "Parsed ClassDeclaration '' '' ''@NativeClass class A {}''
           [Parsed Decorator '' '' ''@NativeClass'' []]"]
    isNativeClassExtension_iff [of "Parsed ClassDeclaration '' '' ''class B {}'' []"]
  by (simp add: canHaveDecorators_def isDecorator_def getDecorators_def marker_tag_def
      sublist_Cons_right)

subsection \<open>The traversal\<close>

lemmas eval_simps =
  visitNode.simps replace_all.simps is_marked_class_def isClassDeclaration_def
  isNativeClassExtension_def canHaveDecorators_def getDecorators_def isDecorator_def
  array_filter_def has_marker_text_def trim_def is_white_space_def marker_tag_def
  createHelper_def remove_marker_def make_enumerable_def marker_regex_def
  defineProperty_regex_def lit_def optional_def dot_or_newline_def dot_def
  is_line_terminator_def dot_all_def between_def nested_options_def visitNodes_def
  transformer_def updateSourceFile_def marked_def
  sample_transpile_def reporting_transpile_def strict_transpile_def sample_decorator_def sample_class_B_def
  sample_function_def sample_class_A_def sample_plain_class_def sample_class_expression_def
  sample_block_def sample_documented_class_def
  Let_def sublist_Cons_right

lemma is_marked_class_value: "is_marked_class n = Inr (marked n)"
  by (auto simp: marked_def is_marked_class_def detector_value)

lemma marked_iff:
  "marked n =
     (isClassDeclaration n \<and>
      (\<exists>d \<in> set (children n). isDecorator d \<and>
         (\<exists>s. getFullText d = Inr s \<and> sublist marker_tag s)))"
  by (auto simp: marked_def is_marked_class_def detector_value canHaveDecorators_def
      isClassDeclaration_def)

lemma not_marked_created: "\<not> marked (CreatedIdentifier s)"
  by (simp add: marked_iff isClassDeclaration_def)

lemma visitNode_marked: "marked n \<Longrightarrow> visitNode tr n = createHelper tr n"
  by (subst visitNode.simps) (simp add: is_marked_class_value)

lemma visitNode_unmarked: "\<not> marked n \<Longrightarrow> visitNode tr n = visitEachChild n (visitNode tr)"
  by (subst visitNode.simps) (simp add: is_marked_class_value)

lemma visitNode_created: "visitNode tr (CreatedIdentifier s) = Inr (CreatedIdentifier s)"
  by (simp add: visitNode_unmarked not_marked_created)

lemma collect_map_Inr: "collect (map Inr xs) = Inr xs"
  by (induction xs) auto

lemma collect_Inr_map: "collect rs = Inr xs \<Longrightarrow> rs = map Inr xs"
  by (induction rs arbitrary: xs) (auto split: sum.splits)

lemma collect_Inl_mem: "collect rs = Inl e \<Longrightarrow> Inl e \<in> set rs"
  by (induction rs) (auto split: sum.splits)

lemma collect_mem_Inl: "Inl e \<in> set rs \<Longrightarrow> \<exists>e'. collect rs = Inl e'"
  by (induction rs) (auto split: sum.splits)

lemma collect_map_id:
  assumes "\<And>x. x \<in> set xs \<Longrightarrow> f x = Inr x"
  shows "collect (map f xs) = Inr xs"
proof -
  have "map f xs = map Inr xs"
    using assms by simp
  then show ?thesis
    by (simp only: collect_map_Inr)
qed

text \<open>A tree without a marked class declaration is returned as it is.\<close>

lemma visitNode_no_marked: "\<not> has_marked n \<Longrightarrow> visitNode tr n = Inr n"
proof (induction n)
  case (Parsed k l t cs)
  have um: "\<not> marked (Parsed k l t cs)" and ch: "\<And>c. c \<in> set cs \<Longrightarrow> \<not> has_marked c"
    using Parsed.prems by (auto simp: list_ex_iff)
  have "collect (map (visitNode tr) cs) = Inr cs"
    by (rule collect_map_id) (simp add: Parsed.IH ch)
  then show ?case
    by (simp add: visitNode_unmarked [OF um] visitNodes_def)
next
  case (CreatedIdentifier s)
  then show ?case
    by (simp add: visitNode_created)
qed

text \<open>
  Claim C7. At a class declaration that the detector accepts, the visitor returns the
  identifier made from the text of the declaration: the children of the declaration are
  not visited, and a marked class among them is not replaced on its own. At every other
  node the visitor returns the node with each child visited in its place.
\<close>

theorem visitNode_top_down:
  "visitNode tr (Parsed k l t cs) =
     (if k = ClassDeclaration \<and>
         (\<exists>d \<in> set cs. isDecorator d \<and> (\<exists>s. getFullText d = Inr s \<and> sublist marker_tag s))
      then (case tr (remove_marker t) nested_options of
              Inl e \<Rightarrow> Inl e
            | Inr out \<Rightarrow> Inr (CreatedIdentifier (make_enumerable (outputText out))))
      else (case collect (map (visitNode tr) cs) of
              Inl e \<Rightarrow> Inl e
            | Inr cs' \<Rightarrow> Inr (Parsed k l t cs')))"
proof -
  define c where
    "c = (k = ClassDeclaration \<and>
       (\<exists>d \<in> set cs. isDecorator d \<and> (\<exists>s. getFullText d = Inr s \<and> sublist marker_tag s)))"
  have m: "marked (Parsed k l t cs) = c"
    by (simp add: marked_iff isClassDeclaration_def c_def)
  have "visitNode tr (Parsed k l t cs) =
     (if c
      then (case tr (remove_marker t) nested_options of
              Inl e \<Rightarrow> Inl e
            | Inr out \<Rightarrow> Inr (CreatedIdentifier (make_enumerable (outputText out))))
      else (case collect (map (visitNode tr) cs) of
              Inl e \<Rightarrow> Inl e
            | Inr cs' \<Rightarrow> Inr (Parsed k l t cs')))"
  proof (cases c)
    case True
    then have "visitNode tr (Parsed k l t cs) = createHelper tr (Parsed k l t cs)"
      using m by (simp add: visitNode_marked)
    then show ?thesis
      using True by (simp add: createHelper_def)
  next
    case False
    then have "visitNode tr (Parsed k l t cs) = visitEachChild (Parsed k l t cs) (visitNode tr)"
      using m by (simp add: visitNode_unmarked)
    then show ?thesis
      using False by (simp add: visitNodes_def)
  qed
  then show ?thesis
    unfolding c_def .
qed

text \<open>
  The marked class \<open>A\<close> with the marked class \<open>B\<close> in a method becomes one identifier;
  the function with \<open>B\<close> in its body keeps its place and has \<open>B\<close> replaced.
\<close>

theorem visitNode_top_down_witness:
  "visitNode sample_transpile sample_class_A =
     Inr (CreatedIdentifier '' class A { m() {  class B {} } }'')
   \<and> visitNode sample_transpile sample_function =
     Inr (Parsed (OtherKind 0) [] ''function f() { @NativeClass class B {} }''
            [CreatedIdentifier '' class B {}''])"
proof -
  have a: "visitNode sample_transpile sample_class_A =
     Inr (CreatedIdentifier '' class A { m() {  class B {} } }'')"
    unfolding sample_class_A_def
    by (subst visitNode_top_down) (simp add: eval_simps)
  have b: "visitNode sample_transpile sample_function =
     Inr (Parsed (OtherKind 0) [] ''function f() { @NativeClass class B {} }''
            [CreatedIdentifier '' class B {}''])"
    unfolding sample_function_def sample_class_B_def
    by (simp add: visitNode_top_down) (simp add: eval_simps)
  show ?thesis
    using a b by simp
qed

text \<open>
  Claim C8. When no statement of the file holds a marked class declaration, the
  transformer returns the file as it is.
\<close>

theorem transformer_identity:
  assumes "\<not> list_ex has_marked (statements source)"
  shows "transformer tr source = Inr source"
proof -
  have "collect (map (visitNode tr) (statements source)) = Inr (statements source)"
    using assms by (intro collect_map_id visitNode_no_marked) (simp add: list_ex_iff)
  then show ?thesis
    by (simp add: transformer_def visitNodes_def updateSourceFile_def)
qed

theorem transformer_identity_witness:
  "\<not> list_ex has_marked [sample_plain_class, sample_class_expression]
   \<and> transformer sample_transpile
       \<lparr>fileName = ''a.ts'', statements = [sample_plain_class, sample_class_expression]\<rparr> =
     Inr \<lparr>fileName = ''a.ts'', statements = [sample_plain_class, sample_class_expression]\<rparr>"
proof -
  have h: "\<not> list_ex has_marked [sample_plain_class, sample_class_expression]"
    by (simp add: eval_simps)
  show ?thesis
    using h transformer_identity
      [of "\<lparr>fileName = ''a.ts'', statements = [sample_plain_class, sample_class_expression]\<rparr>"
          sample_transpile]
    by simp
qed

text \<open>
  Claim C10. A node that is not a class declaration is never replaced, whatever its
  decorators: the visitor visits its children and returns the node, of the same kind and
  text, with the visited children.
\<close>

theorem visitNode_not_class:
  assumes "kind n \<noteq> ClassDeclaration"
  shows "visitNode tr n = visitEachChild n (visitNode tr)
    \<and> (\<forall>n'. visitNode tr n = Inr n' \<longrightarrow>
          kind n' = kind n \<and> getText n' = getText n \<and> getFullText n' = getFullText n
          \<and> map (visitNode tr) (children n) = map Inr (children n'))"
proof -
  have um: "\<not> marked n"
    using assms by (simp add: marked_iff isClassDeclaration_def)
  have v: "visitNode tr n = visitEachChild n (visitNode tr)"
    using um by (rule visitNode_unmarked)
  have "kind n' = kind n \<and> getText n' = getText n \<and> getFullText n' = getFullText n
      \<and> map (visitNode tr) (children n) = map Inr (children n')"
    if "visitEachChild n (visitNode tr) = Inr n'" for n'
    using that by (cases n) (auto simp: visitNodes_def split: sum.splits dest: collect_Inr_map)
  then show ?thesis
    using v by simp
qed

text \<open>
  A class expression with the decorator \<^verbatim>\<open>@NativeClass\<close> is returned as it is.
\<close>

theorem visitNode_not_class_witness:
  "kind (Parsed ClassExpression [] ''@NativeClass class {}'' [sample_decorator]) \<noteq> ClassDeclaration
   \<and> visitNode sample_transpile
       (Parsed ClassExpression [] ''@NativeClass class {}'' [sample_decorator]) =
     Inr (Parsed ClassExpression [] ''@NativeClass class {}'' [sample_decorator])"
proof -
  let ?n = "Parsed ClassExpression [] ''@NativeClass class {}'' [sample_decorator]"
  have h: "kind ?n \<noteq> ClassDeclaration"
    by simp
  have "visitNode sample_transpile ?n = visitEachChild ?n (visitNode sample_transpile)"
    using visitNode_not_class [OF h] by blast
  then show ?thesis
    by (simp add: eval_simps)
qed

text \<open>
  The visitor reads of the compiler its exception or the text of its output, for the
  options of the nested compile.
\<close>

lemma visitNode_cong_compiler:
  assumes "\<And>t. map_sum id outputText (tr1 (remove_marker t) nested_options) =
    map_sum id outputText (tr2 (remove_marker t) nested_options)"
  shows "visitNode tr1 n = visitNode tr2 n"
proof (induction n)
  case (Parsed k l t cs)
  show ?case
  proof (cases "marked (Parsed k l t cs)")
    case True
    have "createHelper tr1 (Parsed k l t cs) = createHelper tr2 (Parsed k l t cs)"
      using assms [of t]
      by (cases "tr1 (remove_marker t) nested_options"; cases "tr2 (remove_marker t) nested_options")
        (simp_all add: createHelper_def)
    then show ?thesis
      using True by (simp add: visitNode_marked)
  next
    case False
    have "map (visitNode tr1) cs = map (visitNode tr2) cs"
      using Parsed.IH by simp
    then show ?thesis
      by (simp only: visitNode_unmarked [OF False] visitEachChild.simps visitNodes_def)
  qed
next
  case (CreatedIdentifier s)
  then show ?case
    by (simp add: visitNode_created)
qed

subsection \<open>What the transformer replaces\<close>

lemma sum_list_related:
  assumes "map f cs = map Inr cs'"
    and "\<And>c c'. c \<in> set cs \<Longrightarrow> f c = Inr c' \<Longrightarrow> g c' = h c"
  shows "sum_list (map g cs') = sum_list (map h cs)"
  using assms
proof (induction cs arbitrary: cs')
  case Nil
  then show ?case by simp
next
  case (Cons c cs)
  then obtain d ds where cs': "cs' = d # ds"
    by (cases cs') auto
  have "g d = h c"
    using Cons.prems cs' by simp
  moreover have "sum_list (map g ds) = sum_list (map h cs)"
    using Cons.prems cs' by (intro Cons.IH) auto
  ultimately show ?case
    using cs' by simp
qed

lemma createHelper_Inr: "createHelper tr n = Inr n' \<Longrightarrow> \<exists>txt. n' = CreatedIdentifier txt"
  by (auto simp: createHelper_def split: sum.splits)

text \<open>
  On a tree of the parser, the created identifiers of the result are as many as the
  outermost marked class declarations.
\<close>

lemma visitNode_count:
  "parsed n \<Longrightarrow> visitNode tr n = Inr n' \<Longrightarrow> count_created n' = length (outermost_marked n)"
proof (induction n arbitrary: n')
  case (Parsed k l t cs)
  show ?case
  proof (cases "marked (Parsed k l t cs)")
    case True
    then show ?thesis
      using Parsed.prems(2)
      by (auto simp: visitNode_marked createHelper_def split: sum.splits)
  next
    case False
    from Parsed.prems(2) obtain cs' where n': "n' = Parsed k l t cs'"
      and c: "collect (map (visitNode tr) cs) = Inr cs'"
      by (auto simp: visitNode_unmarked [OF False] visitNodes_def split: sum.splits)
    have m: "map (visitNode tr) cs = map Inr cs'"
      using c by (rule collect_Inr_map)
    have p: "\<And>c. c \<in> set cs \<Longrightarrow> parsed c"
      using Parsed.prems(1) by (simp add: list_all_iff)
    have "sum_list (map count_created cs') = sum_list (map (\<lambda>c. length (outermost_marked c)) cs)"
      using m by (rule sum_list_related) (simp add: Parsed.IH p)
    then show ?thesis
      using False n' by (simp add: length_concat comp_def)
  qed
next
  case (CreatedIdentifier s)
  then show ?case by simp
qed

text \<open>The visitor puts in the place of a tree a tree that mirrors it.\<close>

lemma visitNode_mirrors: "visitNode tr n = Inr n' \<Longrightarrow> mirrors n n'"
proof (induction n arbitrary: n')
  case (Parsed k l t cs)
  show ?case
  proof (cases "marked (Parsed k l t cs)")
    case True
    then have "createHelper tr (Parsed k l t cs) = Inr n'"
      using Parsed.prems by (simp add: visitNode_marked)
    then have "is_created n'"
      using createHelper_Inr by fastforce
    then show ?thesis
      using True by simp
  next
    case False
    show ?thesis
    proof (cases "has_marked (Parsed k l t cs)")
      case True
      from Parsed.prems obtain cs' where n': "n' = Parsed k l t cs'"
        and c: "collect (map (visitNode tr) cs) = Inr cs'"
        by (auto simp: visitNode_unmarked [OF False] visitNodes_def split: sum.splits)
      have m: "map (visitNode tr) cs = map Inr cs'"
        using c by (rule collect_Inr_map)
      have len: "length cs = length cs'"
        using m by (metis length_map)
      have "mirrors (cs ! i) (cs' ! i)" if "i < length cs" for i
      proof -
        have "map (visitNode tr) cs ! i = map Inr cs' ! i"
          using m by simp
        then have "visitNode tr (cs ! i) = Inr (cs' ! i)"
          using that len by simp
        then show ?thesis
          using that by (intro Parsed.IH) simp_all
      qed
      then have "list_all2 mirrors cs cs'"
        using len by (simp add: list_all2_conv_all_nth)
      then show ?thesis
        using False True n' by simp
    next
      case no: False
      have "visitNode tr (Parsed k l t cs) = Inr (Parsed k l t cs)"
        using no by (rule visitNode_no_marked)
      then show ?thesis
        using Parsed.prems False no by simp
    qed
  qed
next
  case (CreatedIdentifier s)
  then have "n' = CreatedIdentifier s"
    by (simp add: visitNode_created)
  then show ?case
    by simp
qed

text \<open>
  Claim C1, as amended. On a file of the parser, the result mirrors the file, statement
  by statement and at every depth: a marked class declaration that lies in no other one
  is replaced by a created identifier; a tree that holds no marked class declaration is
  unchanged; every other node, which has a marked class declaration below it, keeps its
  kind, its trivia and its text and has as many children in the same order, each mirrored
  in the same way. So the result has as many statements as the file, a statement that
  holds no marked class declaration is unchanged, and the created identifiers of the
  result are as many as the marked class declarations that lie in no other one.
\<close>

theorem transformer_replaces_outermost:
  assumes "list_all parsed (statements source)" and "transformer tr source = Inr out"
  shows "fileName out = fileName source
    \<and> list_all2 mirrors (statements source) (statements out)
    \<and> length (statements out) = length (statements source)
    \<and> sum_list (map count_created (statements out)) =
        length (concat (map outermost_marked (statements source)))
    \<and> (\<forall>i < length (statements source).
          (marked (statements source ! i) \<longrightarrow>
             (\<exists>txt. statements out ! i = CreatedIdentifier txt))
          \<and> (\<not> has_marked (statements source ! i) \<longrightarrow>
               statements out ! i = statements source ! i))"
proof -
  from assms(2) have c: "collect (map (visitNode tr) (statements source)) = Inr (statements out)"
    and fn: "fileName out = fileName source"
    by (auto simp: transformer_def visitNodes_def updateSourceFile_def split: sum.splits)
  have m: "map (visitNode tr) (statements source) = map Inr (statements out)"
    using c by (rule collect_Inr_map)
  have len: "length (statements out) = length (statements source)"
    using m by (metis length_map)
  have p: "\<And>c. c \<in> set (statements source) \<Longrightarrow> parsed c"
    using assms(1) by (simp add: list_all_iff)
  have cnt: "sum_list (map count_created (statements out)) =
      sum_list (map (\<lambda>c. length (outermost_marked c)) (statements source))"
    using m by (rule sum_list_related) (simp add: visitNode_count p)
  have each: "visitNode tr (statements source ! i) = Inr (statements out ! i)"
    if "i < length (statements source)" for i
  proof -
    have "map (visitNode tr) (statements source) ! i = map Inr (statements out) ! i"
      using m by simp
    then show ?thesis
      using that len by simp
  qed
  have "mirrors (statements source ! i) (statements out ! i)"
    if "i < length (statements source)" for i
    using each [OF that] by (rule visitNode_mirrors)
  then have mir: "list_all2 mirrors (statements source) (statements out)"
    using len by (simp add: list_all2_conv_all_nth)
  have repl: "\<exists>txt. statements out ! i = CreatedIdentifier txt"
    if "i < length (statements source)" and "marked (statements source ! i)" for i
    using each [OF that(1)] that(2) createHelper_Inr [of tr "statements source ! i"]
    by (simp add: visitNode_marked)
  have same: "statements out ! i = statements source ! i"
    if "i < length (statements source)" and "\<not> has_marked (statements source ! i)" for i
    using each [OF that(1)] visitNode_no_marked [OF that(2), of tr] by simp
  show ?thesis
    using len fn cnt mir repl same by (simp add: length_concat comp_def)
qed

text \<open>
  The file of \<open>A\<close>, a plain class and the function with a statement on each side of
  \<open>B\<close>: three statements, two created identifiers for the three marked class
  declarations, the plain class and the two statements beside \<open>B\<close> unchanged.
\<close>

theorem transformer_replaces_outermost_witness:
  "list_all parsed [sample_class_A, sample_plain_class, sample_block]
   \<and> transformer sample_transpile
       \<lparr>fileName = ''a.ts'',
        statements = [sample_class_A, sample_plain_class, sample_block]\<rparr> =
     Inr \<lparr>fileName = ''a.ts'',
          statements =
            [CreatedIdentifier '' class A { m() {  class B {} } }'',
             sample_plain_class,
             Parsed (OtherKind 0) [] ''function g() { a(); @NativeClass class B {} b(); }''
               [Parsed (OtherKind 2) '' '' ''a();'' [],
                CreatedIdentifier '' class B {}'',
                Parsed (OtherKind 2) '' '' ''b();'' []]]\<rparr>
   \<and> list_all2 mirrors [sample_class_A, sample_plain_class, sample_block]
        [CreatedIdentifier '' class A { m() {  class B {} } }'',
         sample_plain_class,
         Parsed (OtherKind 0) [] ''function g() { a(); @NativeClass class B {} b(); }''
           [Parsed (OtherKind 2) '' '' ''a();'' [],
            CreatedIdentifier '' class B {}'',
            Parsed (OtherKind 2) '' '' ''b();'' []]]
   \<and> length (concat (map outermost_marked
        [sample_class_A, sample_plain_class, sample_block])) = 2"
proof -
  let ?src = "\<lparr>fileName = ''a.ts'',
      statements = [sample_class_A, sample_plain_class, sample_block]\<rparr>"
  let ?out = "\<lparr>fileName = ''a.ts'',
      statements =
        [CreatedIdentifier '' class A { m() {  class B {} } }'',
         sample_plain_class,
         Parsed (OtherKind 0) [] ''function g() { a(); @NativeClass class B {} b(); }''
           [Parsed (OtherKind 2) '' '' ''a();'' [],
            CreatedIdentifier '' class B {}'',
            Parsed (OtherKind 2) '' '' ''b();'' []]]\<rparr>"
  have p: "list_all parsed (statements ?src)"
    by (simp add: eval_simps)
  have t: "transformer sample_transpile ?src = Inr ?out"
    by (simp add: eval_simps)
  have e: "sum_list (map count_created (statements ?out)) =
      length (concat (map outermost_marked (statements ?src)))"
    using transformer_replaces_outermost [OF p t] by blast
  have m: "list_all2 mirrors (statements ?src) (statements ?out)"
    using transformer_replaces_outermost [OF p t] by blast
  have "length (concat (map outermost_marked (statements ?src))) = 2"
    unfolding e [symmetric] by (simp add: sample_plain_class_def)
  then show ?thesis
    using p t m by simp
qed

text \<open>
  Claim C1 as stated fails. In the file of \<open>A\<close> and the function, the detector accepts
  three class declarations and two nodes are replaced; the function is not a marked
  class declaration, and it is not the same in the result.
\<close>

theorem replaced_count_counterexample:
  "transformer sample_transpile
     \<lparr>fileName = ''a.ts'', statements = [sample_class_A, sample_function]\<rparr> =
   Inr \<lparr>fileName = ''a.ts'',
        statements =
          [CreatedIdentifier '' class A { m() {  class B {} } }'',
           Parsed (OtherKind 0) [] ''function f() { @NativeClass class B {} }''
             [CreatedIdentifier '' class B {}'']]\<rparr>
   \<and> sum_list (map count_marked [sample_class_A, sample_function]) = 3
   \<and> sum_list (map count_created
        [CreatedIdentifier '' class A { m() {  class B {} } }'',
         Parsed (OtherKind 0) [] ''function f() { @NativeClass class B {} }''
           [CreatedIdentifier '' class B {}'']]) = 2
   \<and> \<not> marked sample_function
   \<and> Parsed (OtherKind 0) [] ''function f() { @NativeClass class B {} }''
        [CreatedIdentifier '' class B {}''] \<noteq> sample_function"
  by (simp add: eval_simps)

subsection \<open>Exceptions of the nested compile\<close>

lemma visitNode_Inl:
  "visitNode tr n = Inl e \<Longrightarrow>
   \<exists>c \<in> set (outermost_marked n). \<exists>t. getText c = Inr t \<and> tr (remove_marker t) nested_options = Inl e"
proof (induction n)
  case (Parsed k l t cs)
  show ?case
  proof (cases "marked (Parsed k l t cs)")
    case True
    then show ?thesis
      using Parsed.prems
      by (auto simp: visitNode_marked createHelper_def split: sum.splits)
  next
    case False
    from Parsed.prems have "collect (map (visitNode tr) cs) = Inl e"
      by (auto simp: visitNode_unmarked [OF False] visitNodes_def split: sum.splits)
    then have "Inl e \<in> set (map (visitNode tr) cs)"
      by (rule collect_Inl_mem)
    then obtain c0 where c0: "c0 \<in> set cs" "visitNode tr c0 = Inl e"
      by auto
    then show ?thesis
      using Parsed.IH [OF c0] False by auto
  qed
next
  case (CreatedIdentifier s)
  then show ?case
    by (simp add: visitNode_created)
qed

lemma visitNode_fails:
  "c \<in> set (outermost_marked n) \<Longrightarrow> getText c = Inr t \<Longrightarrow>
   tr (remove_marker t) nested_options = Inl e \<Longrightarrow> \<exists>e'. visitNode tr n = Inl e'"
proof (induction n)
  case (Parsed k l u cs)
  show ?case
  proof (cases "marked (Parsed k l u cs)")
    case True
    then show ?thesis
      using Parsed.prems
      by (auto simp: visitNode_marked createHelper_def split: sum.splits)
  next
    case False
    from Parsed.prems(1) False obtain c0 where c0: "c0 \<in> set cs" "c \<in> set (outermost_marked c0)"
      by auto
    obtain e' where "visitNode tr c0 = Inl e'"
      using Parsed.IH [OF c0 Parsed.prems(2,3)] by blast
    then have "Inl e' \<in> set (map (visitNode tr) cs)"
      using c0(1) by force
    then obtain e'' where "collect (map (visitNode tr) cs) = Inl e''"
      using collect_mem_Inl by blast
    then show ?thesis
      by (simp add: visitNode_unmarked [OF False] visitNodes_def)
  qed
next
  case (CreatedIdentifier s)
  then show ?case by simp
qed

text \<open>
  Claim C4, as amended. The transformer catches nothing and adds nothing: it throws
  exactly when the compiler throws on the text, without the marker, of a marked class
  declaration that lies in no other one, and what it throws is an exception of the
  compiler on such a text, as the compiler threw it. Then there is no result. Of what the
  compiler returns the transformer reads the text of the output only: the diagnostics
  make no difference to the result.
\<close>

theorem nested_exception_propagates:
  "(\<forall>e. transformer tr source = Inl e \<longrightarrow>
      (\<exists>c \<in> set (concat (map outermost_marked (statements source))).
         \<exists>t. getText c = Inr t \<and> tr (remove_marker t) nested_options = Inl e))
   \<and> ((\<exists>c \<in> set (concat (map outermost_marked (statements source))).
         \<exists>t e. getText c = Inr t \<and> tr (remove_marker t) nested_options = Inl e) \<longrightarrow>
       (\<exists>e. transformer tr source = Inl e))
   \<and> transformer (\<lambda>t opts. map_sum id (\<lambda>out. out\<lparr>diagnostics := d\<rparr>) (tr t opts)) source =
       transformer tr source"
proof -
  have a: "\<exists>c \<in> set (concat (map outermost_marked (statements source))).
      \<exists>t. getText c = Inr t \<and> tr (remove_marker t) nested_options = Inl e"
    if "transformer tr source = Inl e" for e
  proof -
    from that have "collect (map (visitNode tr) (statements source)) = Inl e"
      by (auto simp: transformer_def visitNodes_def split: sum.splits)
    then have "Inl e \<in> set (map (visitNode tr) (statements source))"
      by (rule collect_Inl_mem)
    then obtain n where n: "n \<in> set (statements source)" "visitNode tr n = Inl e"
      by auto
    then show ?thesis
      using visitNode_Inl [OF n(2)] by auto
  qed
  have b: "\<exists>e. transformer tr source = Inl e"
    if "\<exists>c \<in> set (concat (map outermost_marked (statements source))).
      \<exists>t e. getText c = Inr t \<and> tr (remove_marker t) nested_options = Inl e"
  proof -
    from that obtain n c t e where n: "n \<in> set (statements source)"
      and c: "c \<in> set (outermost_marked n)" "getText c = Inr t"
        "tr (remove_marker t) nested_options = Inl e"
      by auto
    obtain e' where "visitNode tr n = Inl e'"
      using visitNode_fails [where c = c and n = n and t = t and tr = tr and e = e] c by blast
    then have "Inl e' \<in> set (map (visitNode tr) (statements source))"
      using n by force
    then obtain e'' where "collect (map (visitNode tr) (statements source)) = Inl e''"
      using collect_mem_Inl by blast
    then show ?thesis
      by (simp add: transformer_def visitNodes_def)
  qed
  have "visitNode (\<lambda>t opts. map_sum id (\<lambda>out. out\<lparr>diagnostics := d\<rparr>) (tr t opts)) =
      visitNode tr"
  proof (intro ext visitNode_cong_compiler)
    fix t
    show "map_sum id outputText
        (map_sum id (\<lambda>out. out\<lparr>diagnostics := d\<rparr>) (tr (remove_marker t) nested_options)) =
      map_sum id outputText (tr (remove_marker t) nested_options)"
      by (cases "tr (remove_marker t) nested_options") simp_all
  qed
  then have c: "transformer (\<lambda>t opts. map_sum id (\<lambda>out. out\<lparr>diagnostics := d\<rparr>) (tr t opts)) source =
      transformer tr source"
    by (simp add: transformer_def)
  show ?thesis
    using a b c by blast
qed

text \<open>
  For the class with the call among the arguments of its marker, the text handed to the
  compiler is \<^verbatim>\<open>) class Foo {}\<close>: with the compiler that throws on brackets that do not
  match, the transformer throws.
\<close>

theorem nested_exception_propagates_witness:
  "strict_transpile (remove_marker ''@NativeClass(f(1)) class Foo {}'') nested_options =
     Inl (Thrown ''Declaration or statement expected.'')
   \<and> (\<exists>e. transformer strict_transpile
          \<lparr>fileName = ''a.ts'', statements = [sample_plain_class, sample_nested_args]\<rparr> = Inl e)"
proof -
  let ?src = "\<lparr>fileName = ''a.ts'', statements = [sample_plain_class, sample_nested_args]\<rparr>"
  have t: "strict_transpile (remove_marker ''@NativeClass(f(1)) class Foo {}'')
      nested_options = Inl (Thrown ''Declaration or statement expected.'')"
    by (simp add: eval_simps)
  have o: "sample_nested_args \<in> set (concat (map outermost_marked (statements ?src)))"
    by (simp add: sample_nested_args_def eval_simps)
  have g: "getText sample_nested_args = Inr ''@NativeClass(f(1)) class Foo {}''"
    by (simp add: sample_nested_args_def)
  have "\<exists>e. transformer strict_transpile ?src = Inl e"
    using nested_exception_propagates [of strict_transpile ?src] o g t by blast
  then show ?thesis
    using t by simp
qed

text \<open>
  Claim C4 as stated fails. For the same class, the compiler that reports brackets that
  do not match reports them and returns its output, and the transformer returns a file,
  with the text \<^verbatim>\<open>) class Foo {}\<close> in the place of the class.
\<close>

theorem invalid_fragment_counterexample:
  "remove_marker ''@NativeClass(f(1)) class Foo {}'' = '') class Foo {}''
   \<and> reporting_transpile '') class Foo {}'' nested_options =
       Inr \<lparr>outputText = '') class Foo {}'',
            diagnostics = [''Declaration or statement expected.'']\<rparr>
   \<and> transformer reporting_transpile
       \<lparr>fileName = ''a.ts'', statements = [sample_nested_args]\<rparr> =
     Inr \<lparr>fileName = ''a.ts'', statements = [CreatedIdentifier '') class Foo {}'']\<rparr>"
  by (simp add: sample_nested_args_def eval_simps)

subsection \<open>The configuration of the nested compile\<close>

text \<open>
  For the visit of a tree to return, the compiler must have returned, for the options of
  the nested compile, on the text of every marked class declaration that lies in no other
  one.
\<close>

lemma visitNode_compiles:
  assumes "c \<in> set (outermost_marked n)" and "getText c = Inr t" and "visitNode tr n = Inr n'"
  shows "\<exists>out. tr (remove_marker t) nested_options = Inr out"
proof (cases "tr (remove_marker t) nested_options")
  case (Inl e)
  then have "\<exists>e'. visitNode tr n = Inl e'"
    using visitNode_fails [where c = c and n = n and t = t and tr = tr and e = e] assms(1,2)
    by blast
  then show ?thesis
    using assms(3) by auto
next
  case (Inr out)
  then show ?thesis
    by blast
qed

text \<open>
  Claim C9. The options of the nested compile are one constant: no helpers, the module
  kind ESNext (modules are left as they are written), the target ES5. For a marked class
  declaration the visitor calls the compiler with the text of the declaration without
  the marker and with these options, and returns the exception of that call or the
  identifier made from its output; the transformer returns a file only if that call
  returned for every marked class declaration that lies in no other one. The compiler is
  called with these options only: two compilers that agree on them give the same result
  on every file.
\<close>

theorem nested_options_fixed:
  "nested_options =
     \<lparr>compilerOptions =
        Some \<lparr>noEmitHelpers = Some True, module_option = Some ESNext, target_option = Some ES5\<rparr>,
      reportDiagnostics = None\<rparr>
   \<and> (marked (Parsed k l t cs) \<longrightarrow>
        visitNode tr (Parsed k l t cs) =
          (case tr (remove_marker t) nested_options of
             Inl e \<Rightarrow> Inl e
           | Inr out \<Rightarrow> Inr (CreatedIdentifier (make_enumerable (outputText out)))))
   \<and> (\<forall>out. transformer tr source = Inr out \<longrightarrow>
         (\<forall>c \<in> set (concat (map outermost_marked (statements source))).
            \<forall>u. getText c = Inr u \<longrightarrow> (\<exists>r. tr (remove_marker u) nested_options = Inr r)))
   \<and> ((\<forall>t. tr1 t nested_options = tr2 t nested_options) \<longrightarrow>
        transformer tr1 source = transformer tr2 source)"
proof -
  have a: "visitNode tr (Parsed k l t cs) =
      (case tr (remove_marker t) nested_options of
         Inl e \<Rightarrow> Inl e
       | Inr out \<Rightarrow> Inr (CreatedIdentifier (make_enumerable (outputText out))))"
    if "marked (Parsed k l t cs)"
    using that by (simp add: visitNode_marked createHelper_def)
  have b: "\<exists>r. tr (remove_marker u) nested_options = Inr r"
    if o: "transformer tr source = Inr out"
      and c: "c \<in> set (concat (map outermost_marked (statements source)))"
      and u: "getText c = Inr u" for out c u
  proof -
    from c obtain n where n: "n \<in> set (statements source)" and cn: "c \<in> set (outermost_marked n)"
      by auto
    from o have "collect (map (visitNode tr) (statements source)) = Inr (statements out)"
      by (auto simp: transformer_def visitNodes_def updateSourceFile_def split: sum.splits)
    then have "map (visitNode tr) (statements source) = map Inr (statements out)"
      by (rule collect_Inr_map)
    then have "visitNode tr n \<in> Inr ` set (statements out)"
      using n by (metis image_eqI list.set_map)
    then obtain n' where "visitNode tr n = Inr n'"
      by auto
    then show ?thesis
      using visitNode_compiles [OF cn u] by blast
  qed
  have d: "transformer tr1 source = transformer tr2 source"
    if "\<forall>t. tr1 t nested_options = tr2 t nested_options"
  proof -
    have "visitNode tr1 = visitNode tr2"
      using that by (intro ext visitNode_cong_compiler) simp
    then show ?thesis
      by (simp add: transformer_def)
  qed
  show ?thesis
    using a b d by (simp add: nested_options_def)
qed

text \<open>
  A compiler that marks its output for the options of the nested compile and throws on
  every other configuration: the output of the transformer carries the mark, and it is
  the output for a compiler that marks its output for these options and returns its
  input for the others.
\<close>

theorem nested_options_fixed_witness:
  "marked sample_class_B
   \<and> transformer
       (\<lambda>t opts. if opts = nested_options then Inr \<lparr>outputText = ''/* es5 */'' @ t, diagnostics = []\<rparr>
                  else Inl (Thrown ''options''))
       \<lparr>fileName = ''a.ts'', statements = [sample_class_B, sample_plain_class]\<rparr> =
     Inr \<lparr>fileName = ''a.ts'',
          statements = [CreatedIdentifier ''/* es5 */ class B {}'', sample_plain_class]\<rparr>
   \<and> transformer
       (\<lambda>t opts. if opts = nested_options then Inr \<lparr>outputText = ''/* es5 */'' @ t, diagnostics = []\<rparr>
                  else sample_transpile t opts)
       \<lparr>fileName = ''a.ts'', statements = [sample_class_B, sample_plain_class]\<rparr> =
     Inr \<lparr>fileName = ''a.ts'',
          statements = [CreatedIdentifier ''/* es5 */ class B {}'', sample_plain_class]\<rparr>"
proof -
  let ?tr = "\<lambda>t opts. if opts = nested_options
      then Inr \<lparr>outputText = ''/* es5 */'' @ t, diagnostics = []\<rparr> else Inl (Thrown ''options'')"
  let ?tr' = "\<lambda>t opts. if opts = nested_options
      then Inr \<lparr>outputText = ''/* es5 */'' @ t, diagnostics = []\<rparr> else sample_transpile t opts"
  let ?f = "\<lparr>fileName = ''a.ts'', statements = [sample_class_B, sample_plain_class]\<rparr>"
  have m: "marked (Parsed ClassDeclaration [] ''@NativeClass class B {}'' [sample_decorator])"
    by (simp add: eval_simps)
  have "visitNode ?tr (Parsed ClassDeclaration [] ''@NativeClass class B {}'' [sample_decorator]) =
      (case ?tr (remove_marker ''@NativeClass class B {}'') nested_options of
         Inl e \<Rightarrow> Inl e
       | Inr out \<Rightarrow> Inr (CreatedIdentifier (make_enumerable (outputText out))))"
    using nested_options_fixed
      [of ClassDeclaration "[]" "''@NativeClass class B {}''" "[sample_decorator]" ?tr] m
    by blast
  then have b: "visitNode ?tr sample_class_B = Inr (CreatedIdentifier ''/* es5 */ class B {}'')"
    unfolding sample_class_B_def
    by (simp add: remove_marker_def make_enumerable_def replace_all.simps marker_regex_def
        defineProperty_regex_def lit_def optional_def)
  have p: "visitNode ?tr sample_plain_class = Inr sample_plain_class"
    by (simp add: eval_simps)
  have t: "transformer ?tr ?f =
      Inr \<lparr>fileName = ''a.ts'',
           statements = [CreatedIdentifier ''/* es5 */ class B {}'', sample_plain_class]\<rparr>"
    using b p by (simp add: transformer_def visitNodes_def updateSourceFile_def)
  have "transformer ?tr' ?f = transformer ?tr ?f"
    using nested_options_fixed [of _ _ _ _ _ _ ?tr' ?tr] by simp
  then show ?thesis
    using t m by (simp add: sample_class_B_def)
qed

subsection \<open>The matcher and the scan\<close>

lemma replace_all_Nil: "m [] = None \<Longrightarrow> replace_all m r [] = []"
  by (subst replace_all.simps) simp

lemma replace_all_None: "m (c # cs) = None \<Longrightarrow> replace_all m r (c # cs) = c # replace_all m r cs"
  by (subst replace_all.simps) simp

lemma replace_all_Some:
  "m s = Some (g, rest) \<Longrightarrow> length rest < length s \<Longrightarrow>
   replace_all m r s = r g @ replace_all m r rest"
  by (subst replace_all.simps) simp

text \<open>Text in which no match starts is copied.\<close>

lemma replace_all_skip:
  "(\<And>i. i < length p \<Longrightarrow> m (drop i (p @ q)) = None) \<Longrightarrow>
   replace_all m r (p @ q) = p @ replace_all m r q"
proof (induction p)
  case Nil
  then show ?case by simp
next
  case (Cons c p)
  have "m (c # p @ q) = None"
    using Cons.prems [of 0] by simp
  moreover have "replace_all m r (p @ q) = p @ replace_all m r q"
  proof (rule Cons.IH)
    fix i
    assume "i < length p"
    then show "m (drop i (p @ q)) = None"
      using Cons.prems [of "Suc i"] by simp
  qed
  ultimately show ?case
    by (simp add: replace_all_None)
qed

lemma replace_all_no_match:
  assumes "\<And>i. i \<le> length s \<Longrightarrow> m (drop i s) = None"
  shows "replace_all m r s = s"
proof -
  have "replace_all m r (s @ []) = s @ replace_all m r []"
    by (rule replace_all_skip) (simp add: assms)
  moreover have "m [] = None"
    using assms [of "length s"] by simp
  ultimately show ?thesis
    by (simp add: replace_all_Nil)
qed

lemma lit_append: "lit l k (l @ s) = k s"
  by (simp add: lit_def)

lemma lit_None: "\<not> prefix l s \<Longrightarrow> lit l k s = None"
  by (simp add: lit_def)

lemma lazy_star_hit: "k s = Some r \<Longrightarrow> lazy_star cls k s = Some r"
  by (cases s) simp_all

lemma lazy_star_skip:
  "list_all cls p \<Longrightarrow> (\<And>i. i < length p \<Longrightarrow> k (drop i (p @ q)) = None) \<Longrightarrow>
   lazy_star cls k (p @ q) = lazy_star cls k q"
proof (induction p)
  case Nil
  then show ?case by simp
next
  case (Cons c p)
  have "k (c # p @ q) = None"
    using Cons.prems(2) [of 0] by simp
  moreover have "lazy_star cls k (p @ q) = lazy_star cls k q"
  proof (rule Cons.IH)
    show "list_all cls p"
      using Cons.prems(1) by simp
  next
    fix i
    assume "i < length p"
    then show "k (drop i (p @ q)) = None"
      using Cons.prems(2) [of "Suc i"] by simp
  qed
  ultimately show ?case
    using Cons.prems(1) by simp
qed

lemma greedy_star_all:
  "list_all cls w \<Longrightarrow> greedy_star cls k q = Some r \<Longrightarrow> greedy_star cls k (w @ q) = Some r"
  by (induction w) simp_all

lemma prefix_append_short:
  assumes "prefix xs (ys @ zs)" and "length xs \<le> length ys"
  shows "prefix xs ys"
proof -
  obtain z where e: "ys @ zs = xs @ z"
    using assms(1) by (auto simp: prefix_def)
  have "take (length xs) (ys @ zs) = xs"
    unfolding e by simp
  then have "take (length xs) ys = xs"
    using assms(2) by simp
  then show ?thesis
    by (metis take_is_prefix)
qed

text \<open>
  An occurrence of \<open>t\<close> that starts in \<open>p\<close>, in a text that goes on with \<open>t\<close> after
  \<open>p\<close>, lies in \<open>p\<close> and all of \<open>t\<close> but its last code unit.
\<close>

lemma no_start_within:
  assumes "\<not> sublist t (p @ butlast t)" and "i < length p"
  shows "\<not> prefix t (drop i (p @ t @ y))"
proof
  assume pre: "prefix t (drop i (p @ t @ y))"
  have t: "t \<noteq> []"
    using assms(1) by auto
  define u where "u = drop i p"
  have u: "u \<noteq> []"
    using assms(2) by (simp add: u_def)
  have "drop i (p @ t @ y) = (u @ butlast t) @ ([last t] @ y)"
    using assms(2) t by (simp add: u_def)
  then have "prefix t ((u @ butlast t) @ ([last t] @ y))"
    using pre by simp
  moreover have "length t \<le> length (u @ butlast t)"
    using u by (cases u) simp_all
  ultimately have "prefix t (u @ butlast t)"
    by (rule prefix_append_short)
  then obtain z where "u @ butlast t = t @ z"
    by (auto simp: prefix_def)
  then have "p @ butlast t = take i p @ t @ z"
    by (simp add: u_def) (metis append_assoc append_take_drop_id)
  then have "sublist t (p @ butlast t)"
    by (simp add: sublist_def) blast
  then show False
    using assms(1) by simp
qed

lemma no_start_anywhere: "\<not> sublist t s \<Longrightarrow> \<not> prefix t (drop i s)"
proof
  assume a: "\<not> sublist t s" and "prefix t (drop i s)"
  then obtain z where "drop i s = t @ z"
    by (auto simp: prefix_def)
  then have "s = take i s @ t @ z"
    by (metis append_take_drop_id)
  then have "sublist t s"
    by (simp add: sublist_def) blast
  then show False
    using a by simp
qed

subsection \<open>Removing the marker\<close>








text \<open>A match of the marker is not empty and ends where the input left over starts.\<close>

lemma lit_Some: "lit l k s = Some r \<Longrightarrow> prefix l s \<and> k (drop (length l) s) = Some r"
  by (auto simp: lit_def split: if_splits)

lemma lazy_star_Some: "lazy_star cls k s = Some r \<Longrightarrow> \<exists>s'. suffix s' s \<and> k s' = Some r"
proof (induction s)
  case Nil
  then show ?case by auto
next
  case (Cons c cs)
  show ?case
  proof (cases "k (c # cs)")
    case None
    then have "lazy_star cls k cs = Some r"
      using Cons.prems by (auto split: if_splits)
    then obtain s' where "suffix s' cs" "k s' = Some r"
      using Cons.IH by blast
    then show ?thesis
      by (auto simp: suffix_Cons)
  next
    case (Some r')
    then show ?thesis
      using Cons.prems by auto
  qed
qed

lemma marker_regex_Some:
  assumes "marker_regex s = Some (g, rest)"
  shows "suffix rest s \<and> length rest < length s"
proof -
  define k :: "string \<Rightarrow> (unit \<times> string) option" where "k = (\<lambda>rest. Some ((), rest))"
  define s0 where "s0 = drop (length ''@NativeClass'') s"
  define s1 where "s1 = drop (length ''('') s0"
  have l: "lit ''@NativeClass''
      (optional (\<lambda>k. lit ''('' (lazy_star dot_or_newline (lit '')'' k))) k) s = Some (g, rest)"
    using assms unfolding marker_regex_def k_def .
  have p: "prefix ''@NativeClass'' s"
    using lit_Some [OF l] by (rule conjunct1)
  have o: "optional (\<lambda>k. lit ''('' (lazy_star dot_or_newline (lit '')'' k))) k s0 = Some (g, rest)"
    unfolding s0_def using lit_Some [OF l] by (rule conjunct2)
  have "suffix rest s0"
  proof (cases "lit ''('' (lazy_star dot_or_newline (lit '')'' k)) s0")
    case None
    then have "k s0 = Some (g, rest)"
      using o by (simp add: optional_def)
    then show ?thesis
      by (simp add: k_def)
  next
    case (Some r)
    then have r: "lit ''('' (lazy_star dot_or_newline (lit '')'' k)) s0 = Some (g, rest)"
      using o by (simp add: optional_def)
    have ls: "lazy_star dot_or_newline (lit '')'' k) s1 = Some (g, rest)"
      unfolding s1_def using lit_Some [OF r] by (rule conjunct2)
    obtain s' where s': "suffix s' s1" and c: "lit '')'' k s' = Some (g, rest)"
      using lazy_star_Some [OF ls] by blast
    have "k (drop (length '')'') s') = Some (g, rest)"
      using lit_Some [OF c] by (rule conjunct2)
    then have "rest = drop (length '')'') s'"
      by (simp add: k_def)
    then have "suffix rest s'"
      by (simp add: suffix_drop)
    then have "suffix rest s1"
      using s' by (rule suffix_order.trans)
    then show ?thesis
      unfolding s1_def using suffix_drop by (rule suffix_order.trans)
  qed
  then have a: "suffix rest s"
    unfolding s0_def using suffix_drop by (rule suffix_order.trans)
  have "length rest \<le> length s0"
    using \<open>suffix rest s0\<close> by (rule suffix_length_le)
  moreover have "length ''@NativeClass'' \<le> length s"
    using p by (rule prefix_length_le)
  ultimately have "length rest < length s"
    by (simp add: s0_def)
  then show ?thesis
    using a by simp
qed

lemma remove_marker_subseq: "subseq (remove_marker s) s"
proof (induction "length s" arbitrary: s rule: less_induct)
  case less
  show ?case
  proof (cases "marker_regex s")
    case None
    show ?thesis
    proof (cases s)
      case Nil
      then show ?thesis
        using None by (simp add: remove_marker_def replace_all_Nil)
    next
      case (Cons c cs)
      have "subseq (remove_marker cs) cs"
        using less Cons by simp
      then show ?thesis
        using None Cons by (simp add: remove_marker_def replace_all_None)
    qed
  next
    case (Some a)
    obtain g rest where a: "a = (g, rest)"
      by (cases a)
    have r: "suffix rest s" "length rest < length s"
      using marker_regex_Some Some a by blast+
    have "remove_marker s = remove_marker rest"
      using Some a r(2) by (simp add: remove_marker_def replace_all_Some)
    moreover have "subseq (remove_marker rest) rest"
      using less r(2) by simp
    moreover have "subseq rest s"
      using r(1) by (simp add: suffix_imp_subseq)
    ultimately show ?thesis
      by (metis subseq_order.order_trans)
  qed
qed









subsection \<open>Making the properties enumerable\<close>

lemma not_sublist_single: "x \<notin> set a \<Longrightarrow> \<not> sublist [x] a"
  by (auto simp: sublist_def)

lemma defineProperty_regex_None:
  "\<not> prefix ''Object.defineProperty('' s \<Longrightarrow> defineProperty_regex s = None"
  by (simp add: defineProperty_regex_def lit_None)

text \<open>A lazy repetition skips a text in which the literal that follows it does not start.\<close>

lemma lazy_star_to_literal:
  assumes "\<not> sublist t (p @ butlast t)" and "k y = Some r"
  shows "lazy_star dot_all (lit t k) (p @ t @ y) = Some r"
proof -
  have "lazy_star dot_all (lit t k) (p @ t @ y) = lazy_star dot_all (lit t k) (t @ y)"
  proof (rule lazy_star_skip)
    show "list_all dot_all p"
      by (simp add: list_all_iff dot_all_def)
  next
    fix i
    assume "i < length p"
    then have "\<not> prefix t (drop i (p @ t @ y))"
      by (rule no_start_within [OF assms(1)])
    then show "lit t k (drop i (p @ t @ y)) = None"
      by (rule lit_None)
  qed
  moreover have "lit t k (t @ y) = Some r"
    using assms(2) by (simp add: lit_append)
  ultimately show ?thesis
    by (simp add: lazy_star_hit)
qed

lemma greedy_star_to_false:
  assumes "list_all is_white_space w" and "k y = Some r"
  shows "greedy_star is_white_space (lit ''false'' k) (w @ ''false'' @ y) = Some r"
proof -
  have "greedy_star is_white_space (lit ''false'' k) (''false'' @ y) = lit ''false'' k (''false'' @ y)"
    by (simp add: is_white_space_def)
  then have "greedy_star is_white_space (lit ''false'' k) (''false'' @ y) = Some r"
    using assms(2) by (simp only: lit_append)
  then show ?thesis
    using assms(1) by (rule greedy_star_all [rotated])
qed

lemma between_append: "between (x @ y) y = x"
  by (simp add: between_def)

text \<open>The match of the pattern on a call of the shape that the compiler emits.\<close>

lemma defineProperty_regex_shape:
  assumes a: "CHR ''{'' \<notin> set a"
    and b: "\<not> sublist ''enumerable:'' (b @ butlast ''enumerable:'')"
    and w: "list_all is_white_space w"
    and c: "\<not> sublist ''})'' (c @ butlast ''})'')"
  shows "defineProperty_regex
      (''Object.defineProperty('' @ a @ ''{'' @ b @ ''enumerable:'' @ w @ ''false'' @ c @ ''})'' @ post) =
    Some ((''Object.defineProperty('' @ a @ ''{'' @ b, ''enumerable:'' @ w @ ''false'', c @ ''})''), post)"
proof -
  define s2 where "s2 = c @ ''})'' @ post"
  define s1 where "s1 = ''enumerable:'' @ w @ ''false'' @ s2"
  define s where "s = ''Object.defineProperty('' @ a @ ''{'' @ b @ s1"
  define F where "F = (\<lambda>x. lit ''enumerable:''
      (greedy_star is_white_space
         (lit ''false''
            (\<lambda>y. lazy_star dot_all
               (lit ''})'' (\<lambda>z. Some ((between s x, between x y, between y z), z)))
               y)))
      x)"
  define R where "R = ((between s s1, between s1 s2, between s2 post), post)"
  have d: "defineProperty_regex s =
      lit ''Object.defineProperty('' (lazy_star dot_all (lit ''{'' (lazy_star dot_all F))) s"
    by (simp only: defineProperty_regex_def F_def)
  have "lazy_star dot_all (lit ''})'' (\<lambda>z. Some ((between s s1, between s1 s2, between s2 z), z)))
      (c @ ''})'' @ post) = Some R"
    by (rule lazy_star_to_literal [OF c]) (simp add: R_def)
  then have "greedy_star is_white_space
      (lit ''false''
         (\<lambda>y. lazy_star dot_all
            (lit ''})'' (\<lambda>z. Some ((between s s1, between s1 y, between y z), z)))
            y))
      (w @ ''false'' @ s2) = Some R"
    by (intro greedy_star_to_false [OF w]) (simp only: s2_def)
  then have f1: "F s1 = Some R"
    unfolding F_def s1_def [symmetric]
    by (subst (3) s1_def) (simp only: lit_append)
  have f2: "F x = None" if "\<not> prefix ''enumerable:'' x" for x
    unfolding F_def using that by (rule lit_None)
  have "lazy_star dot_all F (b @ s1) = lazy_star dot_all F s1"
  proof (rule lazy_star_skip)
    show "list_all dot_all b"
      by (simp add: list_all_iff dot_all_def)
  next
    fix i
    assume "i < length b"
    then have "\<not> prefix ''enumerable:'' (drop i (b @ ''enumerable:'' @ w @ ''false'' @ s2))"
      by (rule no_start_within [OF b])
    then show "F (drop i (b @ s1)) = None"
      unfolding s1_def by (rule f2)
  qed
  then have f3: "lazy_star dot_all F (b @ s1) = Some R"
    using f1 by (simp add: lazy_star_hit)
  have "\<not> sublist ''{'' (a @ butlast ''{'')"
    using a by (simp add: not_sublist_single)
  then have "lazy_star dot_all (lit ''{'' (lazy_star dot_all F)) (a @ ''{'' @ b @ s1) = Some R"
    using f3 by (rule lazy_star_to_literal)
  then have "defineProperty_regex s = Some R"
    unfolding d by (subst s_def) (simp only: lit_append)
  moreover have "between s s1 = ''Object.defineProperty('' @ a @ ''{'' @ b"
    using between_append [of "''Object.defineProperty('' @ a @ ''{'' @ b" s1]
    by (simp add: s_def)
  moreover have "between s1 s2 = ''enumerable:'' @ w @ ''false''"
    using between_append [of "''enumerable:'' @ w @ ''false''" s2]
    by (simp add: s1_def)
  moreover have "between s2 post = c @ ''})''"
    using between_append [of "c @ ''})''" post]
    by (simp add: s2_def)
  ultimately show ?thesis
    by (simp add: R_def s_def s1_def s2_def)
qed

lemma make_enumerable_unchanged:
  assumes "\<not> sublist ''Object.defineProperty('' s"
  shows "make_enumerable s = s"
  unfolding make_enumerable_def
proof (rule replace_all_no_match)
  fix i
  have "\<not> prefix ''Object.defineProperty('' (drop i s)"
    using assms by (rule no_start_anywhere)
  then show "defineProperty_regex (drop i s) = None"
    by (rule defineProperty_regex_None)
qed

lemma make_enumerable_skip:
  assumes "\<not> sublist ''Object.defineProperty('' (pre @ butlast ''Object.defineProperty('')"
  shows "make_enumerable (pre @ ''Object.defineProperty('' @ y) =
    pre @ make_enumerable (''Object.defineProperty('' @ y)"
  unfolding make_enumerable_def
proof (rule replace_all_skip)
  fix i
  assume "i < length pre"
  then have "\<not> prefix ''Object.defineProperty('' (drop i (pre @ ''Object.defineProperty('' @ y))"
    by (rule no_start_within [OF assms])
  then show "defineProperty_regex (drop i (pre @ ''Object.defineProperty('' @ y)) = None"
    by (rule defineProperty_regex_None)
qed

lemma make_enumerable_shape:
  assumes "CHR ''{'' \<notin> set a"
    and "\<not> sublist ''enumerable:'' (b @ butlast ''enumerable:'')"
    and "list_all is_white_space w"
    and "\<not> sublist ''})'' (c @ butlast ''})'')"
  shows "make_enumerable
      (''Object.defineProperty('' @ a @ ''{'' @ b @ ''enumerable:'' @ w @ ''false'' @ c @ ''})'' @ post) =
    ''Object.defineProperty('' @ a @ ''{'' @ b @ ''enumerable: true'' @ c @ ''})'' @ make_enumerable post"
proof -
  let ?s = "''Object.defineProperty('' @ a @ ''{'' @ b @ ''enumerable:'' @ w @ ''false'' @ c @ ''})'' @ post"
  have m: "defineProperty_regex ?s =
      Some ((''Object.defineProperty('' @ a @ ''{'' @ b, ''enumerable:'' @ w @ ''false'', c @ ''})''), post)"
    using assms by (rule defineProperty_regex_shape)
  have l: "length post < length ?s"
    by simp
  show ?thesis
    unfolding make_enumerable_def
    by (subst replace_all_Some [where m = defineProperty_regex, OF m l]) simp
qed

text \<open>
  Claim C3, as amended. The replacement rewrites a property-definition call of the
  shape that the compiler emits: after \<^verbatim>\<open>Object.defineProperty(\<close> and arguments
  without a brace, an options object in which \<^verbatim>\<open>enumerable:\<close> first occurs in the
  attribute \<^verbatim>\<open>enumerable: false\<close>, with no \<^verbatim>\<open>})\<close> between the attribute and the end
  of the call. The attribute becomes \<^verbatim>\<open>enumerable: true\<close>, the rest of the call and the
  text in front of it are copied, and the text after the call is treated in the same
  way. A text without \<^verbatim>\<open>Object.defineProperty(\<close> is left as it is.
\<close>

theorem enumerable_patched:
  "(\<not> sublist ''Object.defineProperty('' s \<longrightarrow> make_enumerable s = s)
   \<and> (\<not> sublist ''Object.defineProperty('' (pre @ butlast ''Object.defineProperty('')
        \<and> CHR ''{'' \<notin> set a
        \<and> \<not> sublist ''enumerable:'' (b @ butlast ''enumerable:'')
        \<and> list_all is_white_space w
        \<and> \<not> sublist ''})'' (c @ butlast ''})'') \<longrightarrow>
      make_enumerable
        (pre @ ''Object.defineProperty('' @ a @ ''{'' @ b @ ''enumerable:'' @ w @ ''false''
           @ c @ ''})'' @ post) =
      pre @ ''Object.defineProperty('' @ a @ ''{'' @ b @ ''enumerable: true''
        @ c @ ''})'' @ make_enumerable post)"
proof -
  have "make_enumerable
        (pre @ ''Object.defineProperty('' @ a @ ''{'' @ b @ ''enumerable:'' @ w @ ''false''
           @ c @ ''})'' @ post) =
      pre @ ''Object.defineProperty('' @ a @ ''{'' @ b @ ''enumerable: true''
        @ c @ ''})'' @ make_enumerable post"
    if p: "\<not> sublist ''Object.defineProperty('' (pre @ butlast ''Object.defineProperty('')"
      and s: "CHR ''{'' \<notin> set a" "\<not> sublist ''enumerable:'' (b @ butlast ''enumerable:'')"
        "list_all is_white_space w" "\<not> sublist ''})'' (c @ butlast ''})'')"
    by (simp only: make_enumerable_skip [OF p] make_enumerable_shape [OF s])
  then show ?thesis
    using make_enumerable_unchanged by blast
qed

text \<open>
  An accessor as the compiler emits it for ES5, after a statement that does not define a
  property.
\<close>

theorem enumerable_patched_witness:
  "\<not> sublist ''Object.defineProperty('' ''var x = 1; ''
   \<and> make_enumerable ''var x = 1; '' = ''var x = 1; ''
   \<and> make_enumerable
       (''var x = 1; '' @ ''Object.defineProperty('' @ ''Foo.prototype, name, '' @ ''{''
          @ '' get: function () { return 1; }, '' @ ''enumerable:'' @ '' '' @ ''false''
          @ '', configurable: true '' @ ''})'' @ '';'') =
       ''var x = 1; '' @ ''Object.defineProperty('' @ ''Foo.prototype, name, '' @ ''{''
          @ '' get: function () { return 1; }, '' @ ''enumerable: true''
          @ '', configurable: true '' @ ''})'' @ '';''"
proof -
  have u: "\<not> sublist ''Object.defineProperty('' ''var x = 1; ''"
    by (simp add: sublist_Cons_right)
  have v: "\<not> sublist ''Object.defineProperty('' '';''"
    by (simp add: sublist_Cons_right)
  have h: "\<not> sublist ''Object.defineProperty('' (''var x = 1; '' @ butlast ''Object.defineProperty('')
      \<and> CHR ''{'' \<notin> set ''Foo.prototype, name, ''
      \<and> \<not> sublist ''enumerable:'' ('' get: function () { return 1; }, '' @ butlast ''enumerable:'')
      \<and> list_all is_white_space '' ''
      \<and> \<not> sublist ''})'' ('', configurable: true '' @ butlast ''})'')"
    by (simp add: sublist_Cons_right is_white_space_def)
  have a: "make_enumerable ''var x = 1; '' = ''var x = 1; ''"
    using enumerable_patched [of "''var x = 1; ''"] u by blast
  have b: "make_enumerable '';'' = '';''"
    using enumerable_patched [of "'';''"] v by blast
  have "make_enumerable
       (''var x = 1; '' @ ''Object.defineProperty('' @ ''Foo.prototype, name, '' @ ''{''
          @ '' get: function () { return 1; }, '' @ ''enumerable:'' @ '' '' @ ''false''
          @ '', configurable: true '' @ ''})'' @ '';'') =
       ''var x = 1; '' @ ''Object.defineProperty('' @ ''Foo.prototype, name, '' @ ''{''
          @ '' get: function () { return 1; }, '' @ ''enumerable: true''
          @ '', configurable: true '' @ ''})'' @ make_enumerable '';''"
    using enumerable_patched
      [of _ "''var x = 1; ''" "''Foo.prototype, name, ''" "'' get: function () { return 1; }, ''"
          "'' ''" "'', configurable: true ''" "'';''"] h
    by blast
  then show ?thesis
    using u a by (simp only: b) simp
qed

text \<open>
  Claim C3 as stated fails. After a call without the attribute, the attribute of an
  object that is no argument of \<^verbatim>\<open>Object.defineProperty\<close> is rewritten. In a call whose
  getter makes a call of its own, the attribute of the inner call is rewritten and the
  attribute of the outer call is left \<^verbatim>\<open>false\<close>.
\<close>

theorem enumerable_patched_counterexample:
  "make_enumerable ''Object.defineProperty(a, b, {value: 1}); var o = {enumerable: false}; f({})'' =
     ''Object.defineProperty(a, b, {value: 1}); var o = {enumerable: true}; f({})''
   \<and> make_enumerable
       ''Object.defineProperty(P, x, { get: function () { Object.defineProperty(this, y, { enumerable: false }); }, enumerable: false });'' =
     ''Object.defineProperty(P, x, { get: function () { Object.defineProperty(this, y, { enumerable: true }); }, enumerable: false });''"
  by (simp add: eval_simps)

end
